theory Spec2Isabelle
  imports Main
begin

section \<open>The mailbox and the values exchanged with it\<close>

text \<open>
  A message is owned by the remote mailbox. It carries the two IMAP flags
  \<^verbatim>\<open>\Seen\<close> and \<^verbatim>\<open>\Flagged\<close>, the instant of its arrival (\<open>internaldate\<close>, in
  UTC), the offset from UTC of the zone in which the server reports that instant
  (\<open>zone\<close>), and the raw \<^verbatim>\<open>RFC822\<close> text.

  Instants, wall-clock readings and durations are whole numbers of microseconds, the
  resolution of \<^verbatim>\<open>datetime\<close>; a reading counts from \<^verbatim>\<open>datetime.min\<close>, the start
  of the year 1.
\<close>

type_synonym uid = nat

record mail =
  seen :: bool
  flagged :: bool
  internaldate :: int
  zone :: int
  rfc822 :: string

type_synonym mailbox = "(uid \<times> mail) list"

text \<open>The flags \<^verbatim>\<open>'\\Seen'\<close> and \<^verbatim>\<open>'\\Flagged'\<close> of the flag calls.\<close>

datatype flag = Flag_Seen | Flag_Flagged

text \<open>The search criteria \<^verbatim>\<open>'Unseen'\<close>, \<^verbatim>\<open>'Unflagged'\<close>, \<^verbatim>\<open>'Flagged'\<close>, \<^verbatim>\<open>'Seen'\<close>.\<close>

datatype criterion = Unseen | Unflagged | Flagged | Seen

text \<open>
  The fetch items \<^verbatim>\<open>'RFC822'\<close> and \<^verbatim>\<open>'INTERNALDATE'\<close>, and their values: a
  string, or a \<^verbatim>\<open>datetime\<close> given by its wall-clock reading and its \<^verbatim>\<open>tzinfo\<close>
  (\<open>None\<close> for a naive one, else the offset from UTC).
\<close>

datatype field = RFC822 | INTERNALDATE

datatype fval = Text string | Datetime int "int option"

text \<open>
  The fetch response is a dict from uid to a dict from item to value; both are kept as
  association lists, in the order \<^verbatim>\<open>.items()\<close> walks them.
\<close>

type_synonym data = "(field \<times> fval) list"

type_synonym fetched = "(uid \<times> data) list"

text \<open>
  Python is untyped: the parameter \<^verbatim>\<open>uid\<close> of the three mark methods receives a
  single id from \<^verbatim>\<open>process_messages\<close> and a whole list from the reaper. Both
  shapes are values of \<open>ids\<close>, and the methods wrap whichever they get as \<^verbatim>\<open>[uid]\<close>.
\<close>

datatype ids = Uid uid | Uids "uid list"

text \<open>
  Exceptions. \<open>Exception_in_get_messages e ids\<close> is the
  \<^verbatim>\<open>Exception("Error in get_messages: " + str(e.args) + "\nIds: " + str(ids))\<close>
  that \<^verbatim>\<open>get_messages\<close> raises: it carries the original failure and the ids.
\<close>

datatype error =
    UnboundLocalError string
  | KeyError field
  | TypeError
  | AttributeError
  | OverflowError
  | GatewayError string
  | ParseError string
  | CallbackError string
  | Exception_in_get_messages error "uid list option"

text \<open>A call returns a value (\<open>Inr\<close>) or raises (\<open>Inl\<close>).\<close>

type_synonym 'a result = "error + 'a"

text \<open>The three log lines of the module, with the values their text is built from.\<close>

datatype log_entry =
    Log_error_get_messages error "uid list option"
  | Log_info_process_messages data uid
  | Log_error_process_messages error data uid

text \<open>The calls made on \<^verbatim>\<open>self.client\<close>, with their arguments, in order.\<close>

datatype gw_call =
    Search "criterion list"
  | Fetch "uid list option" "field list"
  | Add_flags "ids list" "flag list"
  | Remove_flags "ids list" "flag list"

text \<open>
  What a callback saw: \<^verbatim>\<open>check_rules()\<close> or \<^verbatim>\<open>trigger()\<close> of the callback of that
  name, built on that message (\<open>None\<close> is Python's \<^verbatim>\<open>None\<close>).
\<close>

datatype 'm event =
    Check_rules string "'m option"
  | Trigger string "'m option"

text \<open>
  Everything the methods can change: the remote mailbox, the log, and the two traces
  above. Every method takes the world and returns it updated, also when it raises.
\<close>

record 'm world =
  mailbox :: mailbox
  logged :: "log_entry list"
  calls :: "gw_call list"
  events :: "'m event list"

section \<open>The collaborators of \<^verbatim>\<open>MailBot\<close>\<close>

text \<open>
  \<^verbatim>\<open>self.client\<close> is an \<^verbatim>\<open>IMAPClient\<close>, a library outside the repository: the
  methods are modelled over any client, given by what its four operations answer on a
  mailbox. A search or a fetch may return \<^verbatim>\<open>None\<close>, which the reaper tests for.
\<close>

record gateway =
  search :: "criterion list \<Rightarrow> mailbox \<Rightarrow> uid list option result"
  fetch :: "uid list option \<Rightarrow> field list \<Rightarrow> mailbox \<Rightarrow> fetched option result"
  add_flags :: "ids list \<Rightarrow> flag list \<Rightarrow> mailbox \<Rightarrow> mailbox result"
  remove_flags :: "ids list \<Rightarrow> flag list \<Rightarrow> mailbox \<Rightarrow> mailbox result"

text \<open>
  The fields of \<^verbatim>\<open>self\<close> that the methods read (\<^verbatim>\<open>__init__\<close>, lines 37-42).
  The timeout is a Python int, "the number of seconds", or \<^verbatim>\<open>None\<close>.
\<close>

record mailbot =
  client :: gateway
  timeout :: "int option"

text \<open>
  A callback class: \<^verbatim>\<open>callback_class(message, rules)\<close> stores its two arguments, and
  \<^verbatim>\<open>check_rules()\<close> and \<^verbatim>\<open>trigger()\<close> answer from them, or raise. The classes and
  \<^verbatim>\<open>CALLBACKS_MAP\<close> live outside this module; \<^verbatim>\<open>CALLBACKS_MAP.items()\<close> is taken
  as a list of pairs.
\<close>

record ('m, 'r, 'v) callback_class =
  cb_name :: string
  check_rules :: "'m option \<Rightarrow> 'r \<Rightarrow> bool result"
  trigger :: "'m option \<Rightarrow> 'r \<Rightarrow> 'v result"

section \<open>The methods of \<^verbatim>\<open>MailBot\<close>\<close>

subsection \<open>Calls on the client, traced\<close>

definition client_search :: "mailbot \<Rightarrow> criterion list \<Rightarrow> 'm world \<Rightarrow> uid list option result \<times> 'm world" where
  "client_search self crit st =
     (search (client self) crit (mailbox st), st\<lparr>calls := calls st @ [Search crit]\<rparr>)"

definition client_fetch ::
  "mailbot \<Rightarrow> uid list option \<Rightarrow> field list \<Rightarrow> 'm world \<Rightarrow> fetched option result \<times> 'm world" where
  "client_fetch self msgs parts st =
     (fetch (client self) msgs parts (mailbox st), st\<lparr>calls := calls st @ [Fetch msgs parts]\<rparr>)"

definition client_add_flags :: "mailbot \<Rightarrow> ids list \<Rightarrow> flag list \<Rightarrow> 'm world \<Rightarrow> unit result \<times> 'm world" where
  "client_add_flags self msgs flags st =
     (case add_flags (client self) msgs flags (mailbox st) of
        Inl e \<Rightarrow> (Inl e, st\<lparr>calls := calls st @ [Add_flags msgs flags]\<rparr>)
      | Inr mb \<Rightarrow> (Inr (), st\<lparr>mailbox := mb, calls := calls st @ [Add_flags msgs flags]\<rparr>))"

definition client_remove_flags :: "mailbot \<Rightarrow> ids list \<Rightarrow> flag list \<Rightarrow> 'm world \<Rightarrow> unit result \<times> 'm world" where
  "client_remove_flags self msgs flags st =
     (case remove_flags (client self) msgs flags (mailbox st) of
        Inl e \<Rightarrow> (Inl e, st\<lparr>calls := calls st @ [Remove_flags msgs flags]\<rparr>)
      | Inr mb \<Rightarrow> (Inr (), st\<lparr>mailbox := mb, calls := calls st @ [Remove_flags msgs flags]\<rparr>))"

subsection \<open>The three mark methods (lines 124-135)\<close>

definition mark_processing :: "mailbot \<Rightarrow> ids \<Rightarrow> 'm world \<Rightarrow> unit result \<times> 'm world" where
  "mark_processing self uid st = client_add_flags self [uid] [Flag_Flagged, Flag_Seen] st"

definition mark_processed :: "mailbot \<Rightarrow> ids \<Rightarrow> 'm world \<Rightarrow> unit result \<times> 'm world" where
  "mark_processed self uid st =
     (case client_remove_flags self [uid] [Flag_Flagged] st of
        (Inl e, st1) \<Rightarrow> (Inl e, st1)
      | (Inr _, st1) \<Rightarrow> client_add_flags self [uid] [Flag_Seen] st1)"

definition mark_unseen :: "mailbot \<Rightarrow> ids \<Rightarrow> 'm world \<Rightarrow> unit result \<times> 'm world" where
  "mark_unseen self uid st = client_remove_flags self [uid] [Flag_Flagged, Flag_Seen] st"

subsection \<open>\<^verbatim>\<open>get_message_ids\<close> and \<^verbatim>\<open>get_messages\<close> (lines 44-56)\<close>

definition get_message_ids :: "mailbot \<Rightarrow> 'm world \<Rightarrow> uid list option result \<times> 'm world" where
  "get_message_ids self st = client_search self [Unseen, Unflagged] st"

text \<open>
  Both calls stand in one \<^verbatim>\<open>try\<close>. The handler builds its text from \<^verbatim>\<open>str(ids)\<close>:
  when the search itself raised, \<^verbatim>\<open>ids\<close> was never bound, and reading it raises
  \<^verbatim>\<open>UnboundLocalError\<close> before \<^verbatim>\<open>log.error\<close> is reached.
\<close>

definition get_messages :: "mailbot \<Rightarrow> 'm world \<Rightarrow> fetched option result \<times> 'm world" where
  "get_messages self st =
     (case get_message_ids self st of
        (Inl e, st1) \<Rightarrow> (Inl (UnboundLocalError ''ids''), st1)
      | (Inr ids, st1) \<Rightarrow>
          (case client_fetch self ids [RFC822] st1 of
             (Inr messages, st2) \<Rightarrow> (Inr messages, st2)
           | (Inl e, st2) \<Rightarrow>
               (Inl (Exception_in_get_messages e ids),
                st2\<lparr>logged := logged st2 @ [Log_error_get_messages e ids]\<rparr>)))"

subsection \<open>\<^verbatim>\<open>process_message\<close> (lines 58-62)\<close>

definition process_message ::
  "'m option \<Rightarrow> ('m, 'r, 'v) callback_class \<Rightarrow> 'r \<Rightarrow> 'm world \<Rightarrow> 'v option result \<times> 'm world" where
  "process_message message cb rules st =
     (let st1 = st\<lparr>events := events st @ [Check_rules (cb_name cb) message]\<rparr> in
      case check_rules cb message rules of
        Inl e \<Rightarrow> (Inl e, st1)
      | Inr False \<Rightarrow> (Inr None, st1)
      | Inr True \<Rightarrow>
          (let st2 = st1\<lparr>events := events st1 @ [Trigger (cb_name cb) message]\<rparr> in
           case trigger cb message rules of
             Inl e \<Rightarrow> (Inl e, st2)
           | Inr v \<Rightarrow> (Inr (Some v), st2)))"

subsection \<open>\<^verbatim>\<open>reset_timeout_messages\<close> (lines 99-122)\<close>

text \<open>\<^verbatim>\<open>data['INTERNALDATE']\<close>, \<^verbatim>\<open>msg['RFC822']\<close>: a missing key raises.\<close>

definition getitem :: "data \<Rightarrow> field \<Rightarrow> fval result" where
  "getitem d k = (case map_of d k of None \<Rightarrow> Inl (KeyError k) | Some v \<Rightarrow> Inr v)"

text \<open>
  \<^verbatim>\<open>timedelta(seconds=t)\<close> for an int: the duration is normalised to days, seconds
  and microseconds, and the days must stay within 999999999 either way.
\<close>

definition timedelta_seconds :: "int \<Rightarrow> int result" where
  "timedelta_seconds t =
     (if - 999999999 \<le> t div 86400 \<and> t div 86400 \<le> 999999999
      then Inr (1000000 * t) else Inl OverflowError)"

text \<open>
  \<^verbatim>\<open>dt - td\<close> for a naive \<^verbatim>\<open>datetime\<close>: the result must be a date of the years 1
  to 9999, that is one of the 3652059 days from \<^verbatim>\<open>datetime.min\<close> on.
\<close>

definition datetime_minus :: "int \<Rightarrow> int \<Rightarrow> int result" where
  "datetime_minus dt td =
     (if 0 \<le> dt - td \<and> dt - td < 3652059 * 86400000000
      then Inr (dt - td) else Inl OverflowError)"

text \<open>
  Line 117, \<^verbatim>\<open>datetime.utcnow() - timedelta(seconds=self.timeout)\<close>, where \<open>now\<close>
  is what \<^verbatim>\<open>datetime.utcnow()\<close> returns.
\<close>

definition date_pivot_of :: "int \<Rightarrow> int \<Rightarrow> int result" where
  "date_pivot_of now t =
     (case timedelta_seconds t of
        Inl e \<Rightarrow> Inl e
      | Inr td \<Rightarrow> datetime_minus now td)"

text \<open>
  \<^verbatim>\<open>v.replace(tzinfo=None)\<close>: the wall-clock reading stays and the offset is dropped;
  nothing is converted. A string has no such \<^verbatim>\<open>replace\<close>.
\<close>

fun replace_tzinfo_None :: "fval \<Rightarrow> fval result" where
  "replace_tzinfo_None (Datetime wall tz) = Inr (Datetime wall None)"
| "replace_tzinfo_None (Text s) = Inl TypeError"

text \<open>\<^verbatim>\<open>v < date_pivot\<close>, the pivot being naive: only a naive datetime compares with it.\<close>

fun before_naive :: "fval \<Rightarrow> int \<Rightarrow> bool result" where
  "before_naive (Datetime wall None) date_pivot = Inr (wall < date_pivot)"
| "before_naive (Datetime wall (Some off)) date_pivot = Inl TypeError"
| "before_naive (Text s) date_pivot = Inl TypeError"

text \<open>
  The comprehension of lines 118-119: the ids whose date, its offset dropped, is
  strictly before the pivot, in the order of the response.
\<close>

fun to_reset_of :: "int \<Rightarrow> fetched \<Rightarrow> uid list result" where
  "to_reset_of date_pivot [] = Inr []"
| "to_reset_of date_pivot ((msg_id, d) # rest) =
     (case getitem d INTERNALDATE of
        Inl e \<Rightarrow> Inl e
      | Inr v \<Rightarrow>
          (case replace_tzinfo_None v of
             Inl e \<Rightarrow> Inl e
           | Inr naive \<Rightarrow>
               (case before_naive naive date_pivot of
                  Inl e \<Rightarrow> Inl e
                | Inr old \<Rightarrow>
                    (case to_reset_of date_pivot rest of
                       Inl e \<Rightarrow> Inl e
                     | Inr acc \<Rightarrow> Inr (if old then msg_id # acc else acc)))))"

text \<open>
  The pivot is computed whenever the fetch answered, before the comprehension. The
  local \<^verbatim>\<open>to_reset\<close> is bound only inside \<^verbatim>\<open>if messages is not None\<close>; the
  test \<^verbatim>\<open>if to_reset\<close> after it reads the local, bound or not (\<open>None\<close> below is
  "never bound").
\<close>

definition reset_timeout_messages :: "mailbot \<Rightarrow> int \<Rightarrow> 'm world \<Rightarrow> unit result \<times> 'm world" where
  "reset_timeout_messages self now st =
     (case timeout self of
        None \<Rightarrow> (Inr (), st)
      | Some t \<Rightarrow>
          (case client_search self [Flagged, Seen] st of
             (Inl e, st1) \<Rightarrow> (Inl e, st1)
           | (Inr ids, st1) \<Rightarrow>
               (case (case ids of
                        None \<Rightarrow> (Inr None, st1)
                      | Some _ \<Rightarrow> client_fetch self ids [INTERNALDATE] st1) of
                  (Inl e, st2) \<Rightarrow> (Inl e, st2)
                | (Inr messages, st2) \<Rightarrow>
                    (case (case messages of
                             None \<Rightarrow> Inr None
                           | Some ms \<Rightarrow>
                               (case date_pivot_of now t of
                                  Inl e \<Rightarrow> Inl e
                                | Inr date_pivot \<Rightarrow>
                                    (case to_reset_of date_pivot ms of
                                       Inl e \<Rightarrow> Inl e
                                     | Inr l \<Rightarrow> Inr (Some l)))) of
                       Inl e \<Rightarrow> (Inl e, st2)
                     | Inr None \<Rightarrow> (Inl (UnboundLocalError ''to_reset''), st2)
                     | Inr (Some []) \<Rightarrow> (Inr (), st2)
                     | Inr (Some (u # us)) \<Rightarrow> mark_unseen self (Uids (u # us)) st2))))"

subsection \<open>\<^verbatim>\<open>process_messages\<close> (lines 64-96)\<close>

text \<open>
  \<^verbatim>\<open>message_from_string\<close> belongs to the standard library and is a parameter; it is
  applied to \<^verbatim>\<open>msg['RFC822']\<close>, and rejects what is no string.
\<close>

definition from_fval :: "(string \<Rightarrow> 'm result) \<Rightarrow> fval \<Rightarrow> 'm result" where
  "from_fval message_from_string v =
     (case v of Text s \<Rightarrow> message_from_string s | Datetime _ _ \<Rightarrow> Inl TypeError)"

text \<open>The \<^verbatim>\<open>try\<close> block of lines 73-76.\<close>

definition try_block ::
  "mailbot \<Rightarrow> (string \<Rightarrow> 'm result) \<Rightarrow> uid \<Rightarrow> data \<Rightarrow> 'm world \<Rightarrow> 'm result \<times> 'm world" where
  "try_block self message_from_string uid msg st =
     (case mark_processing self (Uid uid) st of
        (Inl e, st1) \<Rightarrow> (Inl e, st1)
      | (Inr _, st1) \<Rightarrow>
          (case getitem msg RFC822 of
             Inl e \<Rightarrow> (Inl e, st1)
           | Inr v \<Rightarrow>
               (case from_fval message_from_string v of
                  Inl e \<Rightarrow> (Inl e, st1)
                | Inr m \<Rightarrow> (Inr m, st1\<lparr>logged := logged st1 @ [Log_info_process_messages msg uid]\<rparr>))))"

text \<open>The loop of lines 93-94 over \<^verbatim>\<open>CALLBACKS_MAP.items()\<close>: the first raise leaves it.\<close>

fun callbacks_loop ::
  "'m option \<Rightarrow> (('m, 'r, 'v) callback_class \<times> 'r) list \<Rightarrow> 'm world \<Rightarrow> unit result \<times> 'm world" where
  "callbacks_loop message [] st = (Inr (), st)"
| "callbacks_loop message ((callback_class, rules) # rest) st =
     (case process_message message callback_class rules st of
        (Inl e, st1) \<Rightarrow> (Inl e, st1)
      | (Inr _, st1) \<Rightarrow> callbacks_loop message rest st1)"

text \<open>
  Lines 93-96, after the \<^verbatim>\<open>try\<close> statement: \<open>message\<close> is \<open>None\<close> when the
  handler ran. The callbacks loop is not under the test of line 95.
\<close>

definition dispatch_and_finish ::
  "mailbot \<Rightarrow> (('m, 'r, 'v) callback_class \<times> 'r) list \<Rightarrow> uid \<Rightarrow> 'm option \<Rightarrow> 'm world
     \<Rightarrow> unit result \<times> 'm world" where
  "dispatch_and_finish self CALLBACKS_MAP uid message st =
     (case callbacks_loop message CALLBACKS_MAP st of
        (Inl e, st1) \<Rightarrow> (Inl e, st1)
      | (Inr _, st1) \<Rightarrow>
          (case message of
             None \<Rightarrow> (Inr (), st1)
           | Some _ \<Rightarrow> mark_processed self (Uid uid) st1))"

text \<open>One turn of the loop of line 71, for the item \<open>(uid, msg)\<close>.\<close>

definition loop_body ::
  "mailbot \<Rightarrow> (('m, 'r, 'v) callback_class \<times> 'r) list \<Rightarrow> (string \<Rightarrow> 'm result) \<Rightarrow> uid \<Rightarrow> data
     \<Rightarrow> 'm world \<Rightarrow> unit result \<times> 'm world" where
  "loop_body self CALLBACKS_MAP message_from_string uid msg st =
     (case try_block self message_from_string uid msg st of
        (Inr m, st1) \<Rightarrow> dispatch_and_finish self CALLBACKS_MAP uid (Some m) st1
      | (Inl e, st1) \<Rightarrow>
          (case mark_unseen self (Uid uid)
                  (st1\<lparr>logged := logged st1 @ [Log_error_process_messages e msg uid]\<rparr>) of
             (Inl e', st2) \<Rightarrow> (Inl e', st2)
           | (Inr _, st2) \<Rightarrow> dispatch_and_finish self CALLBACKS_MAP uid None st2))"

fun messages_loop ::
  "mailbot \<Rightarrow> (('m, 'r, 'v) callback_class \<times> 'r) list \<Rightarrow> (string \<Rightarrow> 'm result) \<Rightarrow> fetched
     \<Rightarrow> 'm world \<Rightarrow> unit result \<times> 'm world" where
  "messages_loop self CALLBACKS_MAP message_from_string [] st = (Inr (), st)"
| "messages_loop self CALLBACKS_MAP message_from_string ((uid, msg) # rest) st =
     (case loop_body self CALLBACKS_MAP message_from_string uid msg st of
        (Inl e, st1) \<Rightarrow> (Inl e, st1)
      | (Inr _, st1) \<Rightarrow> messages_loop self CALLBACKS_MAP message_from_string rest st1)"

text \<open>A fetch that returned \<^verbatim>\<open>None\<close> has no \<^verbatim>\<open>items\<close>.\<close>

definition process_messages ::
  "mailbot \<Rightarrow> (('m, 'r, 'v) callback_class \<times> 'r) list \<Rightarrow> (string \<Rightarrow> 'm result) \<Rightarrow> int
     \<Rightarrow> 'm world \<Rightarrow> unit result \<times> 'm world" where
  "process_messages self CALLBACKS_MAP message_from_string now st =
     (case reset_timeout_messages self now st of
        (Inl e, st1) \<Rightarrow> (Inl e, st1)
      | (Inr _, st1) \<Rightarrow>
          (case get_messages self st1 of
             (Inl e, st2) \<Rightarrow> (Inl e, st2)
           | (Inr None, st2) \<Rightarrow> (Inl AttributeError, st2)
           | (Inr (Some messages), st2) \<Rightarrow>
               messages_loop self CALLBACKS_MAP message_from_string messages st2))"

section \<open>A reference client\<close>

text \<open>
  Modelled from the spec: the Mailbox Gateway is \<^verbatim>\<open>IMAPClient\<close>, whose code is not
  part of the repository; section 6 of the specification gives its interface. A search
  returns the ids of the messages that meet every criterion, a fetch returns the asked
  items of the asked messages (the date as an aware datetime in the server's zone, as
  \<^verbatim>\<open>normalise_times = False\<close> asks), and the flag calls set or clear the given flags on the
  given messages and on no other, in one step. The interface takes a flat list of ids
  and says nothing of an element that is itself a list: what the client makes of one is
  the parameter \<open>nested\<close> (\<open>None\<close>: the call raises and changes nothing;
  \<open>Some us\<close>: it is read as the ids \<open>us\<close>).
\<close>

fun matches :: "criterion \<Rightarrow> mail \<Rightarrow> bool" where
  "matches Unseen m = (\<not> seen m)"
| "matches Unflagged m = (\<not> flagged m)"
| "matches Flagged m = flagged m"
| "matches Seen m = seen m"

definition imap_search :: "criterion list \<Rightarrow> mailbox \<Rightarrow> uid list option result" where
  "imap_search crit mb =
     Inr (Some (map fst (filter (\<lambda>(u, m). list_all (\<lambda>c. matches c m) crit) mb)))"

fun item_of :: "mail \<Rightarrow> field \<Rightarrow> field \<times> fval" where
  "item_of m RFC822 = (RFC822, Text (rfc822 m))"
| "item_of m INTERNALDATE =
     (INTERNALDATE, Datetime (internaldate m + zone m) (Some (zone m)))"

definition imap_fetch :: "uid list option \<Rightarrow> field list \<Rightarrow> mailbox \<Rightarrow> fetched option result" where
  "imap_fetch msgs parts mb =
     (case msgs of
        None \<Rightarrow> Inl TypeError
      | Some us \<Rightarrow>
          Inr (Some (map (\<lambda>(u, m). (u, map (item_of m) parts))
                         (filter (\<lambda>(u, m). u \<in> set us) mb))))"

fun set_flag :: "flag \<Rightarrow> mail \<Rightarrow> mail" where
  "set_flag Flag_Seen m = m\<lparr>seen := True\<rparr>"
| "set_flag Flag_Flagged m = m\<lparr>flagged := True\<rparr>"

fun clear_flag :: "flag \<Rightarrow> mail \<Rightarrow> mail" where
  "clear_flag Flag_Seen m = m\<lparr>seen := False\<rparr>"
| "clear_flag Flag_Flagged m = m\<lparr>flagged := False\<rparr>"

fun resolve :: "(uid list \<Rightarrow> uid list option) \<Rightarrow> ids list \<Rightarrow> uid list option" where
  "resolve nested [] = Some []"
| "resolve nested (Uid u # rest) = map_option ((#) u) (resolve nested rest)"
| "resolve nested (Uids us # rest) =
     (case nested us of
        None \<Rightarrow> None
      | Some vs \<Rightarrow> map_option ((@) vs) (resolve nested rest))"

definition store :: "(flag \<Rightarrow> mail \<Rightarrow> mail) \<Rightarrow> uid list \<Rightarrow> flag list \<Rightarrow> mailbox \<Rightarrow> mailbox" where
  "store f us flags mb = map (\<lambda>(u, m). (u, if u \<in> set us then fold f flags m else m)) mb"

definition imap_add_flags ::
  "(uid list \<Rightarrow> uid list option) \<Rightarrow> ids list \<Rightarrow> flag list \<Rightarrow> mailbox \<Rightarrow> mailbox result" where
  "imap_add_flags nested msgs flags mb =
     (case resolve nested msgs of
        None \<Rightarrow> Inl (GatewayError ''bad message set'')
      | Some us \<Rightarrow> Inr (store set_flag us flags mb))"

definition imap_remove_flags ::
  "(uid list \<Rightarrow> uid list option) \<Rightarrow> ids list \<Rightarrow> flag list \<Rightarrow> mailbox \<Rightarrow> mailbox result" where
  "imap_remove_flags nested msgs flags mb =
     (case resolve nested msgs of
        None \<Rightarrow> Inl (GatewayError ''bad message set'')
      | Some us \<Rightarrow> Inr (store clear_flag us flags mb))"

definition imap_client :: "(uid list \<Rightarrow> uid list option) \<Rightarrow> gateway" where
  "imap_client nested =
     \<lparr>search = imap_search, fetch = imap_fetch,
      add_flags = imap_add_flags nested, remove_flags = imap_remove_flags nested\<rparr>"

text \<open>Two readings of a nested list: the client rejects it, or reads through it.\<close>

definition rejecting :: "uid list \<Rightarrow> uid list option" where
  "rejecting us = None"

definition flattening :: "uid list \<Rightarrow> uid list option" where
  "flattening us = Some us"

section \<open>Notions of the specification\<close>

text \<open>
  The entries of a mailbox in the combination the specification calls invalid:
  not seen, yet flagged.
\<close>

definition invalid_entries :: "mailbox \<Rightarrow> (uid \<times> mail) list" where
  "invalid_entries mb = filter (\<lambda>(u, m). \<not> seen m \<and> flagged m) mb"

text \<open>The mailbox in which the messages of the given ids have the given two flags.\<close>

definition with_flags :: "uid list \<Rightarrow> bool \<Rightarrow> bool \<Rightarrow> mailbox \<Rightarrow> mailbox" where
  "with_flags us s f mb =
     map (\<lambda>(u, m). (u, if u \<in> set us then m\<lparr>seen := s, flagged := f\<rparr> else m)) mb"

text \<open>
  The mark methods take one id. A caller with a set of ids runs the method on each in
  turn, as the loop of \<^verbatim>\<open>process_messages\<close> does; the first raise ends the run.
\<close>

fun mark_each ::
  "(ids \<Rightarrow> 'm world \<Rightarrow> unit result \<times> 'm world) \<Rightarrow> uid list \<Rightarrow> 'm world
     \<Rightarrow> unit result \<times> 'm world" where
  "mark_each mark [] st = (Inr (), st)"
| "mark_each mark (u # us) st =
     (case mark (Uid u) st of
        (Inl e, st1) \<Rightarrow> (Inl e, st1)
      | (Inr _, st1) \<Rightarrow> mark_each mark us st1)"

text \<open>
  The ids of the messages in Processing state, and among them those whose date, as the
  server's clock shows it, is strictly before a pivot.
\<close>

definition processing_ids :: "mailbox \<Rightarrow> uid list" where
  "processing_ids mb = map fst (filter (\<lambda>(u, m). flagged m \<and> seen m) mb)"

definition processing_before :: "int \<Rightarrow> mailbox \<Rightarrow> uid list" where
  "processing_before pivot mb =
     map fst (filter (\<lambda>(u, m). flagged m \<and> seen m \<and> internaldate m + zone m < pivot) mb)"

section \<open>Values for the examples\<close>

text \<open>
  So many seconds, in microseconds. The mails of the examples are reported in UTC,
  but for \<open>zoned_mail\<close>, a Processing message reported an hour east of it.
\<close>

definition seconds :: "int \<Rightarrow> int" where
  "seconds n = 1000000 * n"

definition zoned_mail :: "int \<Rightarrow> string \<Rightarrow> mail" where
  "zoned_mail t raw =
     \<lparr>seen = True, flagged = True, internaldate = t, zone = seconds 3600, rfc822 = raw\<rparr>"

definition new_mail :: "int \<Rightarrow> string \<Rightarrow> mail" where
  "new_mail t raw = \<lparr>seen = False, flagged = False, internaldate = t, zone = 0, rfc822 = raw\<rparr>"

definition processing_mail :: "int \<Rightarrow> string \<Rightarrow> mail" where
  "processing_mail t raw = \<lparr>seen = True, flagged = True, internaldate = t, zone = 0, rfc822 = raw\<rparr>"

definition processed_mail :: "int \<Rightarrow> string \<Rightarrow> mail" where
  "processed_mail t raw = \<lparr>seen = True, flagged = False, internaldate = t, zone = 0, rfc822 = raw\<rparr>"

text \<open>A message in the fourth combination, as only a foreign hand can leave one.\<close>

definition tampered_mail :: "int \<Rightarrow> string \<Rightarrow> mail" where
  "tampered_mail t raw = \<lparr>seen = False, flagged = True, internaldate = t, zone = 0, rfc822 = raw\<rparr>"

definition world_of :: "mailbox \<Rightarrow> string world" where
  "world_of mb = \<lparr>mailbox = mb, logged = [], calls = [], events = []\<rparr>"

text \<open>A parser that rejects the text \<open>''garbage''\<close> and returns any other text as it is.\<close>

definition parse_ex :: "string \<Rightarrow> string result" where
  "parse_ex raw = (if raw = ''garbage'' then Inl (ParseError raw) else Inr raw)"

text \<open>A client whose search is down, one whose search answers \<^verbatim>\<open>None\<close>, and one
  that cannot fetch message texts.\<close>

definition search_down :: gateway where
  "search_down = (imap_client rejecting)\<lparr>search := \<lambda>crit mb. Inl (GatewayError ''search'')\<rparr>"

definition search_None :: gateway where
  "search_None = (imap_client rejecting)\<lparr>search := \<lambda>crit mb. Inr None\<rparr>"

definition fetch_down :: gateway where
  "fetch_down =
     (imap_client rejecting)\<lparr>fetch := \<lambda>msgs parts mb.
        if RFC822 \<in> set parts then Inl (GatewayError ''fetch'') else imap_fetch msgs parts mb\<rparr>"

text \<open>A callback that always matches, and one that raises on the message \<open>''hello''\<close>
  and matches every other.\<close>

definition cb_always :: "(string, unit, unit) callback_class" where
  "cb_always =
     \<lparr>cb_name = ''always'', check_rules = \<lambda>message rules. Inr True,
      trigger = \<lambda>message rules. Inr ()\<rparr>"

definition cb_choking :: "(string, unit, unit) callback_class" where
  "cb_choking =
     \<lparr>cb_name = ''choking'',
      check_rules = \<lambda>message rules.
        if message = Some ''hello'' then Inl (CallbackError ''boom'') else Inr True,
      trigger = \<lambda>message rules. Inr ()\<rparr>"

section \<open>Failures of the gateway\<close>

text \<open>
  C9. When the search of \<^verbatim>\<open>get_messages\<close> raises, \<^verbatim>\<open>ids\<close> is unbound in the
  handler: the caller gets \<^verbatim>\<open>UnboundLocalError\<close> and not the exception that wraps
  the ids, and nothing is logged (the world differs from the one before only by the
  search in the trace of calls).
\<close>

theorem get_messages_search_raises:
  assumes "search (client self) [Unseen, Unflagged] (mailbox st) = Inl e"
  shows "get_messages self st =
           (Inl (UnboundLocalError ''ids''), st\<lparr>calls := calls st @ [Search [Unseen, Unflagged]]\<rparr>)"
  using assms by (simp add: get_messages_def get_message_ids_def client_search_def)

theorem get_messages_search_raises_witness:
  "search (client \<lparr>client = search_down, timeout = None\<rparr>) [Unseen, Unflagged]
       (mailbox (world_of [(1, new_mail 0 ''hello'')])) = Inl (GatewayError ''search'')
   \<and> fst (get_messages \<lparr>client = search_down, timeout = None\<rparr> (world_of [(1, new_mail 0 ''hello'')]))
       = Inl (UnboundLocalError ''ids'')
   \<and> logged (snd (get_messages \<lparr>client = search_down, timeout = None\<rparr>
       (world_of [(1, new_mail 0 ''hello'')]))) = []"
proof -
  have h: "search (client \<lparr>client = search_down, timeout = None\<rparr>) [Unseen, Unflagged]
       (mailbox (world_of [(1, new_mail 0 ''hello'')])) = Inl (GatewayError ''search'')"
    by (simp add: search_down_def)
  show ?thesis
    using h get_messages_search_raises [OF h] by (simp add: world_of_def)
qed

text \<open>
  C10. With a timeout set, when the search of the reaper returns \<^verbatim>\<open>None\<close>, nothing
  is fetched, \<^verbatim>\<open>to_reset\<close> is never bound, and the test of line 121 raises
  \<^verbatim>\<open>UnboundLocalError\<close>.
\<close>

theorem reset_timeout_messages_search_None:
  assumes "timeout self = Some t"
    and "search (client self) [Flagged, Seen] (mailbox st) = Inr None"
  shows "reset_timeout_messages self now st =
           (Inl (UnboundLocalError ''to_reset''), st\<lparr>calls := calls st @ [Search [Flagged, Seen]]\<rparr>)"
  using assms by (simp add: reset_timeout_messages_def client_search_def)

theorem reset_timeout_messages_search_None_witness:
  "timeout \<lparr>client = search_None, timeout = Some 60\<rparr> = Some 60
   \<and> search (client \<lparr>client = search_None, timeout = Some 60\<rparr>) [Flagged, Seen]
        (mailbox (world_of [])) = Inr None
   \<and> fst (reset_timeout_messages \<lparr>client = search_None, timeout = Some 60\<rparr> 100 (world_of []))
        = Inl (UnboundLocalError ''to_reset'')"
proof -
  have h1: "timeout \<lparr>client = search_None, timeout = Some 60\<rparr> = Some 60"
    by simp
  have h2: "search (client \<lparr>client = search_None, timeout = Some 60\<rparr>) [Flagged, Seen]
        (mailbox (world_of [])) = Inr None"
    by (simp add: search_None_def)
  show ?thesis
    using h1 h2 reset_timeout_messages_search_None [OF h1 h2, of 100] by simp
qed

text \<open>
  C7. When the reaper has returned and the search of candidates has answered, a bulk
  fetch that raises ends the cycle: the failure is logged with the ids that were asked
  for, the caller gets the exception that wraps the failure and those ids, and the
  world is the one the reaper left, but for the two calls in the trace and the log
  line: no message is claimed and no callback runs.
\<close>

theorem process_messages_fetch_raises:
  assumes "reset_timeout_messages self now st = (Inr (), st1)"
    and "search (client self) [Unseen, Unflagged] (mailbox st1) = Inr found"
    and "fetch (client self) found [RFC822] (mailbox st1) = Inl e"
  shows "process_messages self CALLBACKS_MAP message_from_string now st =
           (Inl (Exception_in_get_messages e found),
            st1\<lparr>calls := calls st1 @ [Search [Unseen, Unflagged], Fetch found [RFC822]],
                logged := logged st1 @ [Log_error_get_messages e found]\<rparr>)"
  using assms
  by (simp add: process_messages_def get_messages_def get_message_ids_def
      client_search_def client_fetch_def)

theorem process_messages_fetch_raises_witness:
  "reset_timeout_messages \<lparr>client = fetch_down, timeout = None\<rparr> 100
       (world_of [(1, new_mail 0 ''hello''), (2, new_mail 5 ''world'')])
     = (Inr (), world_of [(1, new_mail 0 ''hello''), (2, new_mail 5 ''world'')])
   \<and> search (client \<lparr>client = fetch_down, timeout = None\<rparr>) [Unseen, Unflagged]
       (mailbox (world_of [(1, new_mail 0 ''hello''), (2, new_mail 5 ''world'')])) = Inr (Some [1, 2])
   \<and> fetch (client \<lparr>client = fetch_down, timeout = None\<rparr>) (Some [1, 2]) [RFC822]
       (mailbox (world_of [(1, new_mail 0 ''hello''), (2, new_mail 5 ''world'')]))
     = Inl (GatewayError ''fetch'')
   \<and> process_messages \<lparr>client = fetch_down, timeout = None\<rparr>
       ([] :: ((string, unit, unit) callback_class \<times> unit) list) parse_ex 100
       (world_of [(1, new_mail 0 ''hello''), (2, new_mail 5 ''world'')])
     = (Inl (Exception_in_get_messages (GatewayError ''fetch'') (Some [1, 2])),
        \<lparr>mailbox = [(1, new_mail 0 ''hello''), (2, new_mail 5 ''world'')],
         logged = [Log_error_get_messages (GatewayError ''fetch'') (Some [1, 2])],
         calls = [Search [Unseen, Unflagged], Fetch (Some [1, 2]) [RFC822]],
         events = []\<rparr>)"
proof -
  let ?bot = "\<lparr>client = fetch_down, timeout = None\<rparr>"
  let ?st = "world_of [(1, new_mail 0 ''hello''), (2, new_mail 5 ''world'')]"
  have h1: "reset_timeout_messages ?bot 100 ?st = (Inr (), ?st)"
    by (simp add: reset_timeout_messages_def)
  have h2: "search (client ?bot) [Unseen, Unflagged] (mailbox ?st) = Inr (Some [1, 2])"
    by (simp add: fetch_down_def imap_client_def imap_search_def world_of_def new_mail_def)
  have h3: "fetch (client ?bot) (Some [1, 2]) [RFC822] (mailbox ?st) = Inl (GatewayError ''fetch'')"
    by (simp add: fetch_down_def)
  show ?thesis
    using h1 h2 h3
      process_messages_fetch_raises [OF h1 h2 h3,
        of "[] :: ((string, unit, unit) callback_class \<times> unit) list" parse_ex]
    by (simp add: world_of_def)
qed

section \<open>The reaper\<close>

subsection \<open>The pivot\<close>

lemma date_pivot_of_Inr:
  "date_pivot_of now t = Inr p \<Longrightarrow> p = now - 1000000 * t"
  by (auto simp: date_pivot_of_def timedelta_seconds_def datetime_minus_def split: if_splits)

text \<open>
  A pivot that cannot be represented ends the reaper with \<^verbatim>\<open>OverflowError\<close> as soon
  as the fetch has answered, whatever it answered; no flag is touched.
\<close>

lemma reset_timeout_messages_pivot_raises:
  assumes "timeout self = Some t"
    and "search (client self) [Flagged, Seen] (mailbox st) = Inr (Some found)"
    and "fetch (client self) (Some found) [INTERNALDATE] (mailbox st) = Inr (Some ms)"
    and "date_pivot_of now t = Inl e"
  shows "reset_timeout_messages self now st =
           (Inl e, st\<lparr>calls := calls st @ [Search [Flagged, Seen], Fetch (Some found) [INTERNALDATE]]\<rparr>)"
  using assms by (simp add: reset_timeout_messages_def client_search_def client_fetch_def)

text \<open>
  Two timeouts out of range, at a \<open>now\<close> in the year 2001: a hundred thousand
  million seconds reach back before the year 1, and for a hundred million million
  seconds there is no \<^verbatim>\<open>timedelta\<close>.
\<close>

lemma date_pivot_of_out_of_range:
  "date_pivot_of (seconds 63113904000) 100000000000 = Inl OverflowError
   \<and> date_pivot_of (seconds 63113904000) 100000000000000 = Inl OverflowError
   \<and> date_pivot_of (seconds 63113904000) 60 = Inr (seconds 63113903940)"
  by code_simp

subsection \<open>No candidates\<close>

text \<open>
  C5. When the search for messages that are both flagged and seen returns the empty
  list (and the client answers the fetch of no message with the empty mapping), and
  the reaper is off or its pivot \<^verbatim>\<open>utcnow() - timedelta(seconds=timeout)\<close> is a
  datetime, the reaper returns without raising and the mailbox is the one it started
  from.
\<close>

theorem reset_timeout_messages_no_candidates:
  assumes "search (client self) [Flagged, Seen] (mailbox st) = Inr (Some [])"
    and "fetch (client self) (Some []) [INTERNALDATE] (mailbox st) = Inr (Some [])"
    and "timeout self = None \<or> (\<exists>t p. timeout self = Some t \<and> date_pivot_of now t = Inr p)"
  shows "fst (reset_timeout_messages self now st) = Inr ()
         \<and> mailbox (snd (reset_timeout_messages self now st)) = mailbox st"
proof (cases "timeout self")
  case None
  then show ?thesis
    by (simp add: reset_timeout_messages_def)
next
  case (Some t)
  then obtain p where "date_pivot_of now t = Inr p"
    using assms(3) by auto
  then show ?thesis
    using assms(1,2) Some
    by (simp add: reset_timeout_messages_def client_search_def client_fetch_def)
qed

theorem reset_timeout_messages_no_candidates_witness:
  "search (client \<lparr>client = imap_client rejecting, timeout = Some 60\<rparr>) [Flagged, Seen]
       (mailbox (world_of [(1, new_mail 0 ''hello'')])) = Inr (Some [])
   \<and> fetch (client \<lparr>client = imap_client rejecting, timeout = Some 60\<rparr>) (Some []) [INTERNALDATE]
       (mailbox (world_of [(1, new_mail 0 ''hello'')])) = Inr (Some [])
   \<and> timeout \<lparr>client = imap_client rejecting, timeout = Some 60\<rparr> = Some 60
   \<and> date_pivot_of (seconds 100) 60 = Inr (seconds 40)
   \<and> fst (reset_timeout_messages \<lparr>client = imap_client rejecting, timeout = Some 60\<rparr> (seconds 100)
       (world_of [(1, new_mail 0 ''hello'')])) = Inr ()
   \<and> mailbox (snd (reset_timeout_messages \<lparr>client = imap_client rejecting, timeout = Some 60\<rparr>
       (seconds 100) (world_of [(1, new_mail 0 ''hello'')]))) = [(1, new_mail 0 ''hello'')]"
proof -
  let ?bot = "\<lparr>client = imap_client rejecting, timeout = Some 60\<rparr>"
  let ?st = "world_of [(1, new_mail 0 ''hello'')]"
  have h1: "search (client ?bot) [Flagged, Seen] (mailbox ?st) = Inr (Some [])"
    by (simp add: imap_client_def imap_search_def world_of_def new_mail_def)
  have h2: "fetch (client ?bot) (Some []) [INTERNALDATE] (mailbox ?st) = Inr (Some [])"
    by (simp add: imap_client_def imap_fetch_def)
  have t: "timeout ?bot = Some 60"
    by simp
  have p: "date_pivot_of (seconds 100) 60 = Inr (seconds 40)"
    by code_simp
  have h3: "timeout ?bot = None
      \<or> (\<exists>t p. timeout ?bot = Some t \<and> date_pivot_of (seconds 100) t = Inr p)"
    using t p by blast
  have m: "mailbox ?st = [(1, new_mail 0 ''hello'')]"
    by (simp add: world_of_def)
  show ?thesis
    using h1 h2 t p reset_timeout_messages_no_candidates [OF h1 h2 h3] m by simp
qed

subsection \<open>The list handed on\<close>

text \<open>
  C4. When the comprehension of lines 118-119 yields a non-empty list, the reaper is
  \<^verbatim>\<open>mark_unseen\<close> applied to that whole list as its one \<^verbatim>\<open>uid\<close>, so the call
  that reaches the client is \<^verbatim>\<open>remove_flags([to_reset], ...)\<close>: a list of one
  element, the list of expired ids, which is not the flat list of those ids.
\<close>

theorem reset_timeout_messages_nested_ids:
  assumes "timeout self = Some t"
    and "search (client self) [Flagged, Seen] (mailbox st) = Inr (Some found)"
    and "fetch (client self) (Some found) [INTERNALDATE] (mailbox st) = Inr (Some ms)"
    and "date_pivot_of now t = Inr date_pivot"
    and "to_reset_of date_pivot ms = Inr to_reset"
    and "to_reset \<noteq> []"
  shows "reset_timeout_messages self now st =
           mark_unseen self (Uids to_reset)
             (st\<lparr>calls := calls st @ [Search [Flagged, Seen], Fetch (Some found) [INTERNALDATE]]\<rparr>)
         \<and> calls (snd (reset_timeout_messages self now st)) =
             calls st @ [Search [Flagged, Seen], Fetch (Some found) [INTERNALDATE],
                         Remove_flags [Uids to_reset] [Flag_Flagged, Flag_Seen]]
         \<and> [Uids to_reset] \<noteq> map Uid to_reset"
proof -
  obtain u us where l: "to_reset = u # us"
    using assms(6) by (cases to_reset) auto
  have r: "reset_timeout_messages self now st =
           mark_unseen self (Uids to_reset)
             (st\<lparr>calls := calls st @ [Search [Flagged, Seen], Fetch (Some found) [INTERNALDATE]]\<rparr>)"
    using assms(1-5) l
    by (simp add: reset_timeout_messages_def client_search_def client_fetch_def)
  have c: "calls (snd (mark_unseen self (Uids to_reset) w)) =
             calls w @ [Remove_flags [Uids to_reset] [Flag_Flagged, Flag_Seen]]" for w :: "'a world"
    by (simp add: mark_unseen_def client_remove_flags_def split: sum.splits)
  have n: "[Uids to_reset] \<noteq> map Uid to_reset"
    using l by simp
  show ?thesis
    using r c n by simp
qed

theorem reset_timeout_messages_nested_ids_witness:
  "timeout \<lparr>client = imap_client rejecting, timeout = Some 60\<rparr> = Some 60
   \<and> search (client \<lparr>client = imap_client rejecting, timeout = Some 60\<rparr>) [Flagged, Seen]
       (mailbox (world_of [(1, processing_mail (seconds 0) ''a''),
          (2, processing_mail (seconds 10) ''b''), (3, processing_mail (seconds 50) ''c'')]))
     = Inr (Some [1, 2, 3])
   \<and> fetch (client \<lparr>client = imap_client rejecting, timeout = Some 60\<rparr>) (Some [1, 2, 3])
       [INTERNALDATE]
       (mailbox (world_of [(1, processing_mail (seconds 0) ''a''),
          (2, processing_mail (seconds 10) ''b''), (3, processing_mail (seconds 50) ''c'')]))
     = Inr (Some [(1, [(INTERNALDATE, Datetime (seconds 0) (Some 0))]),
                  (2, [(INTERNALDATE, Datetime (seconds 10) (Some 0))]),
                  (3, [(INTERNALDATE, Datetime (seconds 50) (Some 0))])])
   \<and> date_pivot_of (seconds 100) 60 = Inr (seconds 40)
   \<and> to_reset_of (seconds 40)
        [(1, [(INTERNALDATE, Datetime (seconds 0) (Some 0))]),
         (2, [(INTERNALDATE, Datetime (seconds 10) (Some 0))]),
         (3, [(INTERNALDATE, Datetime (seconds 50) (Some 0))])] = Inr [1, 2]
   \<and> [1, 2] \<noteq> ([] :: uid list)
   \<and> calls (snd (reset_timeout_messages \<lparr>client = imap_client rejecting, timeout = Some 60\<rparr>
       (seconds 100)
       (world_of [(1, processing_mail (seconds 0) ''a''),
          (2, processing_mail (seconds 10) ''b''), (3, processing_mail (seconds 50) ''c'')])))
     = [Search [Flagged, Seen], Fetch (Some [1, 2, 3]) [INTERNALDATE],
        Remove_flags [Uids [1, 2]] [Flag_Flagged, Flag_Seen]]"
proof -
  let ?bot = "\<lparr>client = imap_client rejecting, timeout = Some 60\<rparr>"
  let ?st = "world_of [(1, processing_mail (seconds 0) ''a''),
          (2, processing_mail (seconds 10) ''b''), (3, processing_mail (seconds 50) ''c'')]"
  let ?ms = "[(1, [(INTERNALDATE, Datetime (seconds 0) (Some 0))]),
              (2, [(INTERNALDATE, Datetime (seconds 10) (Some 0))]),
              (3, [(INTERNALDATE, Datetime (seconds 50) (Some 0))])]"
  have h1: "timeout ?bot = Some 60"
    by simp
  have h2: "search (client ?bot) [Flagged, Seen] (mailbox ?st) = Inr (Some [1, 2, 3])"
    by (simp add: imap_client_def imap_search_def world_of_def processing_mail_def)
  have h3: "fetch (client ?bot) (Some [1, 2, 3]) [INTERNALDATE] (mailbox ?st) = Inr (Some ?ms)"
    by (simp add: imap_client_def imap_fetch_def world_of_def processing_mail_def)
  have h4: "date_pivot_of (seconds 100) 60 = Inr (seconds 40)"
    by code_simp
  have h5: "to_reset_of (seconds 40) ?ms = Inr [1, 2]"
    by code_simp
  have h6: "[1, 2] \<noteq> ([] :: uid list)"
    by simp
  show ?thesis
    using h1 h2 h3 h4 h5 h6
      reset_timeout_messages_nested_ids [OF h1 h2 h3 h4 h5 h6, THEN conjunct2, THEN conjunct1]
    by (simp add: world_of_def)
qed

subsection \<open>Which messages the reaper selects\<close>

text \<open>
  C3 as stated fails at the boundary. The reaper compares with \<^verbatim>\<open><\<close>: a
  message reported in UTC and exactly as old as the timeout (here \<open>now - T\<close> is 60
  seconds, and so is \<open>D\<close>) is not selected and stays in Processing state, while the
  one a microsecond older is handed to \<^verbatim>\<open>mark_unseen\<close> (and reset by a client that
  reads through the nested list).
\<close>

theorem reaper_boundary_counterexample:
  "seconds 60 \<le> seconds 100 - internaldate (processing_mail (seconds 40) ''a'')
   \<and> zone (processing_mail (seconds 40) ''a'') = 0
   \<and> reset_timeout_messages \<lparr>client = imap_client flattening, timeout = Some 60\<rparr> (seconds 100)
         (world_of [(1, processing_mail (seconds 40) ''a''),
                    (2, processing_mail (seconds 40 - 1) ''b'')])
     = (Inr (),
        \<lparr>mailbox = [(1, processing_mail (seconds 40) ''a''), (2, new_mail (seconds 40 - 1) ''b'')],
         logged = [],
         calls = [Search [Flagged, Seen], Fetch (Some [1, 2]) [INTERNALDATE],
                  Remove_flags [Uids [2]] [Flag_Flagged, Flag_Seen]],
         events = []\<rparr>)"
  by code_simp

text \<open>
  The date is compared as the server's clock shows it: the offset is dropped, not
  subtracted. A Processing message that arrived 70 seconds ago, reported an hour east
  of UTC, is not selected by a timeout of 60 seconds.
\<close>

lemma reaper_reads_wall_clock:
  "seconds 60 < seconds 100 - internaldate (zoned_mail (seconds 30) ''z'')
   \<and> reset_timeout_messages \<lparr>client = imap_client flattening, timeout = Some 60\<rparr> (seconds 100)
         (world_of [(1, zoned_mail (seconds 30) ''z'')])
     = (Inr (),
        \<lparr>mailbox = [(1, zoned_mail (seconds 30) ''z'')],
         logged = [],
         calls = [Search [Flagged, Seen], Fetch (Some [1]) [INTERNALDATE]],
         events = []\<rparr>)"
  by code_simp

lemma imap_search_processing:
  "imap_search [Flagged, Seen] mb = Inr (Some (processing_ids mb))"
  by (simp add: imap_search_def processing_ids_def)

lemma filter_by_found:
  assumes "distinct (map fst mb)"
  shows "filter (\<lambda>(u, m). u \<in> set (map fst (filter P mb))) mb = filter P mb"
proof (rule filter_cong [OF refl])
  fix x
  assume x: "x \<in> set mb"
  obtain u m where um: "x = (u, m)" by (cases x)
  have "P (u, m)" if "(u, m') \<in> set mb" and "P (u, m')" for m'
    using eq_key_imp_eq_value [OF assms that(1)] x um that(2) by auto
  then show "(case x of (u, m) \<Rightarrow> u \<in> set (map fst (filter P mb))) = P x"
    using x um by force
qed

lemma to_reset_of_dates:
  "to_reset_of pivot (map (\<lambda>(u, m). (u, map (item_of m) [INTERNALDATE])) xs) =
     Inr (map fst (filter (\<lambda>(u, m). internaldate m + zone m < pivot) xs))"
  by (induction xs) (auto simp: getitem_def)

lemma to_reset_of_processing:
  assumes "distinct (map fst mb)"
  shows "imap_fetch (Some (processing_ids mb)) [INTERNALDATE] mb = Inr (Some ms)
         \<Longrightarrow> to_reset_of pivot ms = Inr (processing_before pivot mb)"
proof -
  assume f: "imap_fetch (Some (processing_ids mb)) [INTERNALDATE] mb = Inr (Some ms)"
  have ms: "ms = map (\<lambda>(u, m). (u, map (item_of m) [INTERNALDATE]))
                   (filter (\<lambda>(u, m). flagged m \<and> seen m) mb)"
    using f filter_by_found [OF assms, of "\<lambda>(u, m). flagged m \<and> seen m"]
    by (simp add: imap_fetch_def processing_ids_def)
  have e: "filter (\<lambda>(u, m). internaldate m + zone m < pivot)
             (filter (\<lambda>(u, m). flagged m \<and> seen m) mb)
          = filter (\<lambda>(u, m). flagged m \<and> seen m \<and> internaldate m + zone m < pivot) mb"
    by (auto intro: filter_cong)
  show ?thesis
    by (simp only: ms to_reset_of_dates processing_before_def e)
qed

text \<open>
  C3, amended. With the reference client, a timeout of \<open>D\<close> seconds whose pivot
  \<^verbatim>\<open>utcnow() - timedelta(seconds=D)\<close> is a datetime, and a mailbox whose ids are
  distinct, the reaper searches, fetches the dates of the Processing messages, and
    \<^item> when no Processing message has its date before the pivot it returns and leaves
      every flag as it was;
    \<^item> otherwise it is \<^verbatim>\<open>mark_unseen\<close> on the list of the Processing messages whose
      date is before the pivot;
    \<^item> a Processing message that the server reports in UTC, with arrival time \<open>T\<close>,
      is in that list if and only if \<open>now - T\<close> is strictly more than \<open>D\<close>
      seconds, and the list holds ids of Processing messages only.
\<close>

theorem reaper_selects_strictly_older:
  assumes "client self = imap_client nested"
    and "timeout self = Some D"
    and "distinct (map fst (mailbox st))"
    and "date_pivot_of now D = Inr date_pivot"
  shows "reset_timeout_messages self now st =
           (if processing_before date_pivot (mailbox st) = []
            then (Inr (), st\<lparr>calls := calls st @ [Search [Flagged, Seen],
                        Fetch (Some (processing_ids (mailbox st))) [INTERNALDATE]]\<rparr>)
            else mark_unseen self (Uids (processing_before date_pivot (mailbox st)))
                   (st\<lparr>calls := calls st @ [Search [Flagged, Seen],
                        Fetch (Some (processing_ids (mailbox st))) [INTERNALDATE]]\<rparr>))
         \<and> (\<forall>u m. (u, m) \<in> set (mailbox st) \<and> flagged m \<and> seen m \<and> zone m = 0 \<longrightarrow>
               (u \<in> set (processing_before date_pivot (mailbox st))
                  \<longleftrightarrow> 1000000 * D < now - internaldate m))
         \<and> set (processing_before date_pivot (mailbox st)) \<subseteq> set (processing_ids (mailbox st))"
proof -
  let ?mb = "mailbox st"
  let ?sel = "processing_before date_pivot ?mb"
  obtain ms where f: "imap_fetch (Some (processing_ids ?mb)) [INTERNALDATE] ?mb = Inr (Some ms)"
    by (simp add: imap_fetch_def)
  have t: "to_reset_of date_pivot ms = Inr ?sel"
    using to_reset_of_processing [OF assms(3) f] .
  have 1: "reset_timeout_messages self now st =
           (if ?sel = []
            then (Inr (), st\<lparr>calls := calls st @ [Search [Flagged, Seen],
                        Fetch (Some (processing_ids ?mb)) [INTERNALDATE]]\<rparr>)
            else mark_unseen self (Uids ?sel)
                   (st\<lparr>calls := calls st @ [Search [Flagged, Seen],
                        Fetch (Some (processing_ids ?mb)) [INTERNALDATE]]\<rparr>))"
    using assms(1,2,4) f t
    by (cases ?sel)
       (simp_all add: reset_timeout_messages_def client_search_def client_fetch_def
          imap_client_def imap_search_processing)
  have p: "date_pivot = now - 1000000 * D"
    using date_pivot_of_Inr [OF assms(4)] .
  have 2: "u \<in> set ?sel \<longleftrightarrow> 1000000 * D < now - internaldate m"
    if "(u, m) \<in> set ?mb" and "flagged m" and "seen m" and "zone m = 0" for u m
  proof
    assume "u \<in> set ?sel"
    then obtain m' where m': "(u, m') \<in> set ?mb" and d: "internaldate m' + zone m' < date_pivot"
      by (auto simp: processing_before_def)
    have "m' = m"
      using eq_key_imp_eq_value [OF assms(3) m' that(1)] .
    then show "1000000 * D < now - internaldate m"
      using d p that(4) by simp
  next
    assume "1000000 * D < now - internaldate m"
    then have "internaldate m + zone m < date_pivot"
      using p that(4) by simp
    then show "u \<in> set ?sel"
      using that(1-3) by (force simp: processing_before_def)
  qed
  have 3: "set ?sel \<subseteq> set (processing_ids ?mb)"
    by (auto simp: processing_before_def processing_ids_def)
  show ?thesis
    using 1 2 3 by blast
qed

theorem reaper_selects_strictly_older_witness:
  "client \<lparr>client = imap_client flattening, timeout = Some 60\<rparr> = imap_client flattening
   \<and> timeout \<lparr>client = imap_client flattening, timeout = Some 60\<rparr> = Some 60
   \<and> distinct (map fst (mailbox (world_of
        [(1, processing_mail (seconds 40) ''a''), (2, processing_mail (seconds 40 - 1) ''b''),
         (3, new_mail 0 ''c'')])))
   \<and> date_pivot_of (seconds 100) 60 = Inr (seconds 40)
   \<and> (2, processing_mail (seconds 40 - 1) ''b'') \<in> set (mailbox (world_of
        [(1, processing_mail (seconds 40) ''a''), (2, processing_mail (seconds 40 - 1) ''b''),
         (3, new_mail 0 ''c'')]))
   \<and> flagged (processing_mail (seconds 40 - 1) ''b'')
   \<and> seen (processing_mail (seconds 40 - 1) ''b'')
   \<and> zone (processing_mail (seconds 40 - 1) ''b'') = 0
   \<and> (2 \<in> set (processing_before (seconds 40) (mailbox (world_of
        [(1, processing_mail (seconds 40) ''a''), (2, processing_mail (seconds 40 - 1) ''b''),
         (3, new_mail 0 ''c'')])))
        \<longleftrightarrow> 1000000 * 60 < seconds 100 - internaldate (processing_mail (seconds 40 - 1) ''b''))
   \<and> processing_before (seconds 40) (mailbox (world_of
        [(1, processing_mail (seconds 40) ''a''), (2, processing_mail (seconds 40 - 1) ''b''),
         (3, new_mail 0 ''c'')])) = [2]
   \<and> reset_timeout_messages \<lparr>client = imap_client flattening, timeout = Some 60\<rparr> (seconds 100)
        (world_of [(1, processing_mail (seconds 40) ''a''),
                   (2, processing_mail (seconds 40 - 1) ''b''), (3, new_mail 0 ''c'')])
      = mark_unseen \<lparr>client = imap_client flattening, timeout = Some 60\<rparr> (Uids [2])
          \<lparr>mailbox = [(1, processing_mail (seconds 40) ''a''),
                      (2, processing_mail (seconds 40 - 1) ''b''), (3, new_mail 0 ''c'')],
           logged = [],
           calls = [Search [Flagged, Seen], Fetch (Some [1, 2]) [INTERNALDATE]],
           events = []\<rparr>"
proof -
  let ?bot = "\<lparr>client = imap_client flattening, timeout = Some 60\<rparr>"
  let ?mb = "[(1, processing_mail (seconds 40) ''a''), (2, processing_mail (seconds 40 - 1) ''b''),
              (3, new_mail 0 ''c'')]"
  have h1: "client ?bot = imap_client flattening"
    by simp
  have h2: "timeout ?bot = Some 60"
    by simp
  have h3: "distinct (map fst (mailbox (world_of ?mb :: string world)))"
    by (simp add: world_of_def)
  have h4: "date_pivot_of (seconds 100) 60 = Inr (seconds 40)"
    by code_simp
  note t = reaper_selects_strictly_older [OF h1 h2 h3 h4]
  have m: "(2, processing_mail (seconds 40 - 1) ''b'') \<in> set (mailbox (world_of ?mb :: string world))"
    by (simp add: world_of_def)
  have f: "flagged (processing_mail (seconds 40 - 1) ''b'')"
    "seen (processing_mail (seconds 40 - 1) ''b'')"
    "zone (processing_mail (seconds 40 - 1) ''b'') = 0"
    by (simp_all add: processing_mail_def)
  have a: "2 \<in> set (processing_before (seconds 40) (mailbox (world_of ?mb :: string world)))
        \<longleftrightarrow> 1000000 * 60 < seconds 100 - internaldate (processing_mail (seconds 40 - 1) ''b'')"
    using t m f by blast
  have l: "processing_before (seconds 40) (mailbox (world_of ?mb :: string world)) = [2]"
    by code_simp
  have p: "processing_ids (mailbox (world_of ?mb :: string world)) = [1, 2]"
    by code_simp
  have r: "reset_timeout_messages ?bot (seconds 100) (world_of ?mb)
      = mark_unseen ?bot (Uids [2])
          \<lparr>mailbox = ?mb, logged = [],
           calls = [Search [Flagged, Seen], Fetch (Some [1, 2]) [INTERNALDATE]],
           events = []\<rparr>"
    using t [THEN conjunct1, unfolded l p] by (simp add: world_of_def)
  show ?thesis
    using h1 h2 h3 h4 m f a l r by blast
qed

section \<open>The flags as a state register\<close>

subsection \<open>The mark methods on a set of ids\<close>

lemma with_flags_Cons:
  "with_flags us s f (with_flags [u] s f mb) = with_flags (u # us) s f mb"
  by (auto simp: with_flags_def)

lemma with_flags_twice:
  "with_flags us s f (with_flags us s' f' mb) = with_flags us s f mb"
  by (auto simp: with_flags_def)

lemma mark_each_with_flags:
  assumes "\<And>u st. fst (mark (Uid u) st) = Inr ()
              \<and> mailbox (snd (mark (Uid u) st)) = with_flags [u] s f (mailbox st)"
  shows "fst (mark_each mark us st) = Inr ()
         \<and> mailbox (snd (mark_each mark us st)) = with_flags us s f (mailbox st)"
proof (induction us arbitrary: st)
  case Nil
  then show ?case by (simp add: with_flags_def)
next
  case (Cons u us)
  obtain r st1 where m: "mark (Uid u) st = (r, st1)"
    by (cases "mark (Uid u) st")
  have r: "r = Inr ()" and mb: "mailbox st1 = with_flags [u] s f (mailbox st)"
    using assms [of u st] m by simp_all
  show ?case
    using m r mb Cons.IH [of st1] by (simp add: with_flags_Cons)
qed

lemma mark_processing_Uid:
  assumes "client self = imap_client nested"
  shows "fst (mark_processing self (Uid u) st) = Inr ()
         \<and> mailbox (snd (mark_processing self (Uid u) st)) = with_flags [u] True True (mailbox st)"
  using assms
  by (auto simp: mark_processing_def client_add_flags_def imap_client_def imap_add_flags_def
      store_def with_flags_def)

lemma mark_unseen_Uid:
  assumes "client self = imap_client nested"
  shows "fst (mark_unseen self (Uid u) st) = Inr ()
         \<and> mailbox (snd (mark_unseen self (Uid u) st)) = with_flags [u] False False (mailbox st)"
  using assms
  by (auto simp: mark_unseen_def client_remove_flags_def imap_client_def imap_remove_flags_def
      store_def with_flags_def)

lemma mark_processed_Uid:
  assumes "client self = imap_client nested"
  shows "fst (mark_processed self (Uid u) st) = Inr ()
         \<and> mailbox (snd (mark_processed self (Uid u) st)) = with_flags [u] True False (mailbox st)"
  using assms
  by (auto simp: mark_processed_def client_add_flags_def client_remove_flags_def imap_client_def
      imap_add_flags_def imap_remove_flags_def store_def with_flags_def)

text \<open>
  C8. With the reference client, for every list of ids and every starting world:
  \<^verbatim>\<open>mark_processing\<close> on each id and then \<^verbatim>\<open>mark_processed\<close> on each id both
  return, and leave every message of the list seen and not flagged (Processed), the
  others as they were; and \<^verbatim>\<open>mark_unseen\<close> on each id, run twice, leaves the
  mailbox that one run leaves.
\<close>

theorem mark_methods_compose:
  assumes "client self = imap_client nested"
  shows "fst (mark_each (mark_processing self) us st) = Inr ()
    \<and> fst (mark_each (mark_processed self) us (snd (mark_each (mark_processing self) us st))) = Inr ()
    \<and> mailbox (snd (mark_each (mark_processed self) us (snd (mark_each (mark_processing self) us st))))
        = with_flags us True False (mailbox st)
    \<and> mailbox (snd (mark_each (mark_unseen self) us (snd (mark_each (mark_unseen self) us st))))
        = mailbox (snd (mark_each (mark_unseen self) us st))"
proof -
  have a: "fst (mark_each (mark_processing self) us w) = Inr ()
      \<and> mailbox (snd (mark_each (mark_processing self) us w)) = with_flags us True True (mailbox w)"
    for w :: "'a world"
    by (rule mark_each_with_flags) (rule mark_processing_Uid [OF assms])
  have b: "fst (mark_each (mark_processed self) us w) = Inr ()
      \<and> mailbox (snd (mark_each (mark_processed self) us w)) = with_flags us True False (mailbox w)"
    for w :: "'a world"
    by (rule mark_each_with_flags) (rule mark_processed_Uid [OF assms])
  have c: "fst (mark_each (mark_unseen self) us w) = Inr ()
      \<and> mailbox (snd (mark_each (mark_unseen self) us w)) = with_flags us False False (mailbox w)"
    for w :: "'a world"
    by (rule mark_each_with_flags) (rule mark_unseen_Uid [OF assms])
  show ?thesis
    by (simp add: a b c with_flags_twice)
qed

theorem mark_methods_compose_witness:
  "client \<lparr>client = imap_client rejecting, timeout = None\<rparr> = imap_client rejecting
   \<and> mailbox (snd (mark_each (mark_processed \<lparr>client = imap_client rejecting, timeout = None\<rparr>) [1, 2, 3, 4]
        (snd (mark_each (mark_processing \<lparr>client = imap_client rejecting, timeout = None\<rparr>) [1, 2, 3, 4]
          (world_of [(1, new_mail 0 ''a''), (2, processing_mail 0 ''b''), (3, processed_mail 0 ''c''),
                     (4, tampered_mail 0 ''d''), (5, new_mail 0 ''e'')])))))
     = [(1, processed_mail 0 ''a''), (2, processed_mail 0 ''b''), (3, processed_mail 0 ''c''),
        (4, processed_mail 0 ''d''), (5, new_mail 0 ''e'')]
   \<and> mailbox (snd (mark_each (mark_unseen \<lparr>client = imap_client rejecting, timeout = None\<rparr>) [1, 2, 3, 4]
        (snd (mark_each (mark_unseen \<lparr>client = imap_client rejecting, timeout = None\<rparr>) [1, 2, 3, 4]
          (world_of [(1, new_mail 0 ''a''), (2, processing_mail 0 ''b''), (3, processed_mail 0 ''c''),
                     (4, tampered_mail 0 ''d''), (5, new_mail 0 ''e'')])))))
     = mailbox (snd (mark_each (mark_unseen \<lparr>client = imap_client rejecting, timeout = None\<rparr>) [1, 2, 3, 4]
          (world_of [(1, new_mail 0 ''a''), (2, processing_mail 0 ''b''), (3, processed_mail 0 ''c''),
                     (4, tampered_mail 0 ''d''), (5, new_mail 0 ''e'')])))"
proof -
  let ?bot = "\<lparr>client = imap_client rejecting, timeout = None\<rparr>"
  let ?mb = "[(1, new_mail 0 ''a''), (2, processing_mail 0 ''b''), (3, processed_mail 0 ''c''),
                     (4, tampered_mail 0 ''d''), (5, new_mail 0 ''e'')]"
  have h: "client ?bot = imap_client rejecting"
    by simp
  note t = mark_methods_compose [OF h, of "[1, 2, 3, 4]" "world_of ?mb"]
  have e: "with_flags [1, 2, 3, 4] True False (mailbox (world_of ?mb))
     = [(1, processed_mail 0 ''a''), (2, processed_mail 0 ''b''), (3, processed_mail 0 ''c''),
        (4, processed_mail 0 ''d''), (5, new_mail 0 ''e'')]"
    by code_simp
  show ?thesis
    using h t e by simp
qed

subsection \<open>The fourth combination is never produced\<close>

lemma store_keeps_valid:
  assumes "\<And>m. seen (fold f flags m) \<or> \<not> flagged (fold f flags m)"
  shows "set (invalid_entries (store f us flags mb)) \<subseteq> set (invalid_entries mb)"
proof
  fix p
  assume p: "p \<in> set (invalid_entries (store f us flags mb))"
  obtain u m where um: "p = (u, m)" by (cases p)
  from p um obtain m0 where m0: "(u, m0) \<in> set mb"
    and m: "m = (if u \<in> set us then fold f flags m0 else m0)"
    and bad: "\<not> seen m" "flagged m"
    by (auto simp: invalid_entries_def store_def)
  have "u \<notin> set us"
    using assms [of m0] m bad by auto
  then show "p \<in> set (invalid_entries mb)"
    using um m0 m bad by (simp add: invalid_entries_def)
qed

lemma mailbox_client_add_flags:
  "client self = imap_client nested \<Longrightarrow>
   mailbox (snd (client_add_flags self x flags st)) =
     (case resolve nested x of None \<Rightarrow> mailbox st | Some us \<Rightarrow> store set_flag us flags (mailbox st))"
  by (simp add: client_add_flags_def imap_client_def imap_add_flags_def split: option.splits)

lemma mailbox_client_remove_flags:
  "client self = imap_client nested \<Longrightarrow>
   mailbox (snd (client_remove_flags self x flags st)) =
     (case resolve nested x of None \<Rightarrow> mailbox st | Some us \<Rightarrow> store clear_flag us flags (mailbox st))"
  by (simp add: client_remove_flags_def imap_client_def imap_remove_flags_def split: option.splits)

lemma add_flags_seen_keeps_valid:
  assumes "client self = imap_client nested" and "Flag_Seen \<in> set flags"
  shows "set (invalid_entries (mailbox (snd (client_add_flags self x flags st))))
           \<subseteq> set (invalid_entries (mailbox st))"
proof -
  have "seen (fold set_flag fl m)" if "Flag_Seen \<in> set fl \<or> seen m" for fl m
    using that
  proof (induction fl arbitrary: m)
    case Nil
    then show ?case by simp
  next
    case (Cons a fl)
    then show ?case by (cases a) auto
  qed
  then have "\<And>m. seen (fold set_flag flags m) \<or> \<not> flagged (fold set_flag flags m)"
    using assms(2) by blast
  then show ?thesis
    using assms(1) by (simp add: mailbox_client_add_flags store_keeps_valid split: option.splits)
qed

lemma remove_flags_flagged_keeps_valid:
  assumes "client self = imap_client nested" and "Flag_Flagged \<in> set flags"
  shows "set (invalid_entries (mailbox (snd (client_remove_flags self x flags st))))
           \<subseteq> set (invalid_entries (mailbox st))"
proof -
  have "\<not> flagged (fold clear_flag fl m)" if "Flag_Flagged \<in> set fl \<or> \<not> flagged m" for fl m
    using that
  proof (induction fl arbitrary: m)
    case Nil
    then show ?case by simp
  next
    case (Cons a fl)
    then show ?case by (cases a) auto
  qed
  then have "\<And>m. seen (fold clear_flag flags m) \<or> \<not> flagged (fold clear_flag flags m)"
    using assms(2) by blast
  then show ?thesis
    using assms(1) by (simp add: mailbox_client_remove_flags store_keeps_valid split: option.splits)
qed

lemma mark_processing_keeps_valid:
  "client self = imap_client nested \<Longrightarrow>
   set (invalid_entries (mailbox (snd (mark_processing self x st)))) \<subseteq> set (invalid_entries (mailbox st))"
  by (simp add: mark_processing_def add_flags_seen_keeps_valid)

lemma mark_unseen_keeps_valid:
  "client self = imap_client nested \<Longrightarrow>
   set (invalid_entries (mailbox (snd (mark_unseen self x st)))) \<subseteq> set (invalid_entries (mailbox st))"
  by (simp add: mark_unseen_def remove_flags_flagged_keeps_valid)

lemma mark_processed_keeps_valid:
  assumes "client self = imap_client nested"
  shows "set (invalid_entries (mailbox (snd (mark_processed self x st)))) \<subseteq> set (invalid_entries (mailbox st))"
proof (cases "client_remove_flags self [x] [Flag_Flagged] st")
  case (Pair r st1)
  have a: "set (invalid_entries (mailbox st1)) \<subseteq> set (invalid_entries (mailbox st))"
    using remove_flags_flagged_keeps_valid [OF assms, of "[Flag_Flagged]" "[x]" st] Pair by simp
  have b: "set (invalid_entries (mailbox (snd (client_add_flags self [x] [Flag_Seen] st1))))
             \<subseteq> set (invalid_entries (mailbox st1))"
    using add_flags_seen_keeps_valid [OF assms, of "[Flag_Seen]"] by simp
  show ?thesis
    using Pair a b by (cases r) (auto simp: mark_processed_def)
qed

lemma mailbox_process_message [simp]:
  "mailbox (snd (process_message message cb rules st)) = mailbox st"
  by (simp add: process_message_def Let_def split: sum.splits bool.splits)

lemma mailbox_callbacks_loop [simp]:
  "mailbox (snd (callbacks_loop message cbs st)) = mailbox st"
proof (induction cbs arbitrary: st)
  case Nil
  then show ?case by simp
next
  case (Cons a cbs)
  obtain cb rules where a: "a = (cb, rules)" by (cases a)
  obtain r st1 where p: "process_message message cb rules st = (r, st1)"
    by (cases "process_message message cb rules st")
  have "mailbox st1 = mailbox st"
    using mailbox_process_message [of message cb rules st] p by simp
  then show ?case
    using Cons.IH [of st1] a p by (cases r) simp_all
qed

lemma try_block_keeps_valid:
  assumes "client self = imap_client nested"
  shows "set (invalid_entries (mailbox (snd (try_block self parse uid msg st))))
           \<subseteq> set (invalid_entries (mailbox st))"
  using mark_processing_keeps_valid [OF assms, of "Uid uid" st]
  by (cases "mark_processing self (Uid uid) st")
     (auto simp: try_block_def split: sum.splits)

lemma dispatch_and_finish_keeps_valid:
  assumes "client self = imap_client nested"
  shows "set (invalid_entries (mailbox (snd (dispatch_and_finish self cbs uid message st))))
           \<subseteq> set (invalid_entries (mailbox st))"
proof (cases "callbacks_loop message cbs st")
  case (Pair r st1)
  have m: "mailbox st1 = mailbox st"
    using mailbox_callbacks_loop [of message cbs st] Pair by simp
  show ?thesis
    using Pair m mark_processed_keeps_valid [OF assms, of "Uid uid" st1]
    by (cases r; cases message) (simp_all add: dispatch_and_finish_def)
qed

lemma loop_body_keeps_valid:
  assumes "client self = imap_client nested"
  shows "set (invalid_entries (mailbox (snd (loop_body self cbs parse uid msg st))))
           \<subseteq> set (invalid_entries (mailbox st))"
proof (cases "try_block self parse uid msg st")
  case (Pair r st1)
  have a: "set (invalid_entries (mailbox st1)) \<subseteq> set (invalid_entries (mailbox st))"
    using try_block_keeps_valid [OF assms, of parse uid msg st] Pair by simp
  show ?thesis
  proof (cases r)
    case (Inr m)
    then show ?thesis
      using Pair a dispatch_and_finish_keeps_valid [OF assms, of cbs uid "Some m" st1]
      by (auto simp: loop_body_def)
  next
    case (Inl e)
    let ?st1 = "st1\<lparr>logged := logged st1 @ [Log_error_process_messages e msg uid]\<rparr>"
    obtain r2 st2 where u: "mark_unseen self (Uid uid) ?st1 = (r2, st2)"
      by (cases "mark_unseen self (Uid uid) ?st1")
    have b: "set (invalid_entries (mailbox st2)) \<subseteq> set (invalid_entries (mailbox st1))"
      using mark_unseen_keeps_valid [OF assms, of "Uid uid" ?st1] u by simp
    show ?thesis
      using Pair Inl u a b dispatch_and_finish_keeps_valid [OF assms, of cbs uid None st2]
      by (cases r2) (auto simp: loop_body_def)
  qed
qed

lemma messages_loop_keeps_valid:
  assumes "client self = imap_client nested"
  shows "set (invalid_entries (mailbox (snd (messages_loop self cbs parse messages st))))
           \<subseteq> set (invalid_entries (mailbox st))"
proof (induction messages arbitrary: st)
  case Nil
  then show ?case by simp
next
  case (Cons a messages)
  obtain uid msg where a: "a = (uid, msg)" by (cases a)
  obtain r st1 where b: "loop_body self cbs parse uid msg st = (r, st1)"
    by (cases "loop_body self cbs parse uid msg st")
  have c: "set (invalid_entries (mailbox st1)) \<subseteq> set (invalid_entries (mailbox st))"
    using loop_body_keeps_valid [OF assms, of cbs parse uid msg st] b by simp
  show ?case
    using a b c Cons.IH [of st1] by (cases r) auto
qed

lemma mailbox_get_messages [simp]:
  "mailbox (snd (get_messages self st)) = mailbox st"
  by (simp add: get_messages_def get_message_ids_def client_search_def client_fetch_def
      split: sum.splits)

lemma reset_timeout_messages_keeps_valid:
  assumes "client self = imap_client nested"
  shows "set (invalid_entries (mailbox (snd (reset_timeout_messages self now st))))
           \<subseteq> set (invalid_entries (mailbox st))"
proof -
  have "set (invalid_entries (mailbox (snd (mark_unseen self x (st\<lparr>calls := c\<rparr>)))))
          \<subseteq> set (invalid_entries (mailbox st))" for x c
    using mark_unseen_keeps_valid [OF assms, of x "st\<lparr>calls := c\<rparr>"] by simp
  then show ?thesis
    by (simp add: reset_timeout_messages_def client_search_def client_fetch_def
        split: option.splits sum.splits list.splits)
qed

lemma process_messages_keeps_valid:
  assumes "client self = imap_client nested"
  shows "set (invalid_entries (mailbox (snd (process_messages self cbs parse now st))))
           \<subseteq> set (invalid_entries (mailbox st))"
proof (cases "reset_timeout_messages self now st")
  case (Pair r st1)
  have a: "set (invalid_entries (mailbox st1)) \<subseteq> set (invalid_entries (mailbox st))"
    using reset_timeout_messages_keeps_valid [OF assms, of now st] Pair by simp
  obtain r2 st2 where g: "get_messages self st1 = (r2, st2)"
    by (cases "get_messages self st1")
  have b: "mailbox st2 = mailbox st1"
    using mailbox_get_messages [of self st1] g by simp
  have c: "set (invalid_entries (mailbox (snd (messages_loop self cbs parse ms st2))))
             \<subseteq> set (invalid_entries (mailbox st))" for ms
    using messages_loop_keeps_valid [OF assms, of cbs parse ms st2] a b by auto
  show ?thesis
    using Pair g a b c
    by (cases r; cases r2) (auto simp: process_messages_def split: option.splits)
qed

text \<open>
  C6. With the reference client, whatever the starting world, after
  \<^verbatim>\<open>mark_processing\<close>, \<^verbatim>\<open>mark_processed\<close>, \<^verbatim>\<open>mark_unseen\<close> (on an id or on
  a list), the reaper, or a whole cycle, every entry of the mailbox that is not seen yet
  flagged was an entry of the mailbox, with these very flags, before: no operation
  produces the combination.
\<close>

theorem no_operation_produces_invalid_flags:
  assumes "client self = imap_client nested"
  shows "set (invalid_entries (mailbox (snd (mark_processing self x st))))
           \<subseteq> set (invalid_entries (mailbox st))
       \<and> set (invalid_entries (mailbox (snd (mark_processed self x st))))
           \<subseteq> set (invalid_entries (mailbox st))
       \<and> set (invalid_entries (mailbox (snd (mark_unseen self x st))))
           \<subseteq> set (invalid_entries (mailbox st))
       \<and> set (invalid_entries (mailbox (snd (reset_timeout_messages self now st))))
           \<subseteq> set (invalid_entries (mailbox st))
       \<and> set (invalid_entries (mailbox (snd
              (process_messages self CALLBACKS_MAP message_from_string now st))))
           \<subseteq> set (invalid_entries (mailbox st))"
  using mark_processing_keeps_valid [OF assms] mark_processed_keeps_valid [OF assms]
    mark_unseen_keeps_valid [OF assms] reset_timeout_messages_keeps_valid [OF assms]
    process_messages_keeps_valid [OF assms]
  by blast

theorem no_operation_produces_invalid_flags_witness:
  "client \<lparr>client = imap_client flattening, timeout = Some 60\<rparr> = imap_client flattening
   \<and> set (invalid_entries (mailbox (snd (mark_processing
          \<lparr>client = imap_client flattening, timeout = Some 60\<rparr> (Uid 2)
          (world_of [(1, tampered_mail 0 ''x''), (2, new_mail 5 ''hi''), (3, processing_mail 7 ''old'')])))))
       \<subseteq> set (invalid_entries (mailbox
          (world_of [(1, tampered_mail 0 ''x''), (2, new_mail 5 ''hi''), (3, processing_mail 7 ''old'')])))
   \<and> set (invalid_entries (mailbox (snd (process_messages
          \<lparr>client = imap_client flattening, timeout = Some 60\<rparr> [(cb_always, ())] parse_ex (seconds 100)
          (world_of [(1, tampered_mail 0 ''x''), (2, new_mail 5 ''hi''), (3, processing_mail 7 ''old'')])))))
       \<subseteq> set (invalid_entries (mailbox
          (world_of [(1, tampered_mail 0 ''x''), (2, new_mail 5 ''hi''), (3, processing_mail 7 ''old'')])))
   \<and> mailbox (snd (process_messages
          \<lparr>client = imap_client flattening, timeout = Some 60\<rparr> [(cb_always, ())] parse_ex (seconds 100)
          (world_of [(1, tampered_mail 0 ''x''), (2, new_mail 5 ''hi''), (3, processing_mail 7 ''old'')])))
       = [(1, tampered_mail 0 ''x''), (2, processed_mail 5 ''hi''), (3, processed_mail 7 ''old'')]"
proof -
  let ?bot = "\<lparr>client = imap_client flattening, timeout = Some 60\<rparr>"
  let ?st = "world_of [(1, tampered_mail 0 ''x''), (2, new_mail 5 ''hi''), (3, processing_mail 7 ''old'')]"
  have h: "client ?bot = imap_client flattening"
    by simp
  note t = no_operation_produces_invalid_flags [OF h, of "Uid 2" ?st "seconds 100" "[(cb_always, ())]" parse_ex]
  have e: "mailbox (snd (process_messages ?bot [(cb_always, ())] parse_ex (seconds 100) ?st))
       = [(1, tampered_mail 0 ''x''), (2, processed_mail 5 ''hi''), (3, processed_mail 7 ''old'')]"
    by code_simp
  show ?thesis
    using h t e by blast
qed

section \<open>The processing cycle\<close>

subsection \<open>A message that does not parse\<close>

text \<open>
  C1. One Unprocessed message whose text the parser rejects, and one registered
  callback that matches everything. The cycle returns, the failure is logged with the
  raw item and the uid, the message is Unprocessed again; but the callbacks loop has
  run on \<^verbatim>\<open>message = None\<close>: \<^verbatim>\<open>check_rules\<close> and \<^verbatim>\<open>trigger\<close> of the callback
  were both called for the message that did not parse.
\<close>

theorem process_messages_dispatches_unparsed:
  "process_messages \<lparr>client = imap_client rejecting, timeout = None\<rparr> [(cb_always, ())] parse_ex 100
         (world_of [(1, new_mail 0 ''garbage'')])
   = (Inr (),
      \<lparr>mailbox = [(1, new_mail 0 ''garbage'')],
       logged = [Log_error_process_messages (ParseError ''garbage'') [(RFC822, Text ''garbage'')] 1],
       calls = [Search [Unseen, Unflagged], Fetch (Some [1]) [RFC822],
                Add_flags [Uid 1] [Flag_Flagged, Flag_Seen],
                Remove_flags [Uid 1] [Flag_Flagged, Flag_Seen]],
       events = [Check_rules ''always'' None, Trigger ''always'' None]\<rparr>)"
  by code_simp

subsection \<open>A callback that raises\<close>

text \<open>
  C2 as stated fails on the remaining messages. Two Unprocessed messages and a
  callback whose \<^verbatim>\<open>check_rules\<close> raises on the first: the exception leaves \<^verbatim>\<open>process_messages\<close>. The first message stays in
  Processing state; the second was fetched, yet is never claimed nor shown to the
  callback, although the callback would have taken it.
\<close>

theorem callback_failure_counterexample:
  "process_messages \<lparr>client = imap_client rejecting, timeout = None\<rparr> [(cb_choking, ())] parse_ex 100
         (world_of [(1, new_mail 0 ''hello''), (2, new_mail 5 ''world'')])
   = (Inl (CallbackError ''boom''),
      \<lparr>mailbox = [(1, processing_mail 0 ''hello''), (2, new_mail 5 ''world'')],
       logged = [Log_info_process_messages [(RFC822, Text ''hello'')] 1],
       calls = [Search [Unseen, Unflagged], Fetch (Some [1, 2]) [RFC822],
                Add_flags [Uid 1] [Flag_Flagged, Flag_Seen]],
       events = [Check_rules ''choking'' (Some ''hello'')]\<rparr>)"
  by code_simp

lemma process_message_frame:
  "process_message message cb rules (st\<lparr>mailbox := mb, logged := l, calls := c\<rparr>) =
     (case process_message message cb rules st of
        (r, s) \<Rightarrow> (r, s\<lparr>mailbox := mb, logged := l, calls := c\<rparr>))"
  by (simp add: process_message_def Let_def split: sum.splits bool.splits)

lemma callbacks_loop_frame:
  "callbacks_loop message cbs (st\<lparr>mailbox := mb, logged := l, calls := c\<rparr>) =
     (case callbacks_loop message cbs st of
        (r, s) \<Rightarrow> (r, s\<lparr>mailbox := mb, logged := l, calls := c\<rparr>))"
proof (induction cbs arbitrary: st)
  case Nil
  then show ?case by simp
next
  case (Cons a cbs)
  obtain cb rules where a: "a = (cb, rules)" by (cases a)
  obtain r st1 where p: "process_message message cb rules st = (r, st1)"
    by (cases "process_message message cb rules st")
  show ?case
    using Cons.IH [of st1] a p by (cases r) (simp_all add: process_message_frame)
qed

lemma messages_loop_append:
  "messages_loop self cbs parse (xs @ ys) st =
     (case messages_loop self cbs parse xs st of
        (Inl e, st1) \<Rightarrow> (Inl e, st1)
      | (Inr _, st1) \<Rightarrow> messages_loop self cbs parse ys st1)"
proof (induction xs arbitrary: st)
  case Nil
  then show ?case by simp
next
  case (Cons a xs)
  obtain uid msg where a: "a = (uid, msg)" by (cases a)
  obtain r st1 where b: "loop_body self cbs parse uid msg st = (r, st1)"
    by (cases "loop_body self cbs parse uid msg st")
  show ?case
    using a b Cons.IH [of st1] by (cases r) simp_all
qed

lemma try_block_parsed:
  assumes "client self = imap_client nested"
    and "getitem msg RFC822 = Inr (Text raw)"
    and "message_from_string raw = Inr m"
  shows "try_block self message_from_string uid msg st =
           (Inr m, st\<lparr>mailbox := with_flags [uid] True True (mailbox st),
                      logged := logged st @ [Log_info_process_messages msg uid],
                      calls := calls st @ [Add_flags [Uid uid] [Flag_Flagged, Flag_Seen]]\<rparr>)"
proof -
  have "store set_flag [uid] [Flag_Flagged, Flag_Seen] (mailbox st) = with_flags [uid] True True (mailbox st)"
    by (auto simp: store_def with_flags_def)
  then show ?thesis
    using assms
    by (simp add: try_block_def mark_processing_def client_add_flags_def imap_client_def
        imap_add_flags_def from_fval_def)
qed

text \<open>
  C2, amended. With the reference client: when the reaper has returned, the messages
  were fetched, the messages before \<open>(uid, msg)\<close> went through the loop without a
  raise, \<open>msg\<close> parses, and a callback raises \<open>e\<close> on the parsed message, then
  \<^verbatim>\<open>process_messages\<close> raises \<open>e\<close> to its caller. The world is the one the failed
  dispatch left: the message \<open>uid\<close> is seen and flagged (Processing), and nothing of
  the cycle happens after the raise, so the remaining fetched messages are neither
  claimed nor dispatched and keep their flags.
\<close>

theorem callback_failure_aborts_cycle:
  assumes "client self = imap_client nested"
    and "reset_timeout_messages self now st = (Inr (), sa)"
    and "get_messages self sa = (Inr (Some (before @ (uid, msg) # rest)), sb)"
    and "messages_loop self CALLBACKS_MAP message_from_string before sb = (Inr (), st1)"
    and "getitem msg RFC822 = Inr (Text raw)"
    and "message_from_string raw = Inr m"
    and "callbacks_loop (Some m) CALLBACKS_MAP st1 = (Inl e, st2)"
  shows "process_messages self CALLBACKS_MAP message_from_string now st =
           (Inl e, st2\<lparr>mailbox := with_flags [uid] True True (mailbox st1),
                       logged := logged st1 @ [Log_info_process_messages msg uid],
                       calls := calls st1 @ [Add_flags [Uid uid] [Flag_Flagged, Flag_Seen]]\<rparr>)"
proof -
  have t: "try_block self message_from_string uid msg st1 =
           (Inr m, st1\<lparr>mailbox := with_flags [uid] True True (mailbox st1),
                      logged := logged st1 @ [Log_info_process_messages msg uid],
                      calls := calls st1 @ [Add_flags [Uid uid] [Flag_Flagged, Flag_Seen]]\<rparr>)"
    using assms(1,5,6) by (rule try_block_parsed)
  have l: "messages_loop self CALLBACKS_MAP message_from_string (before @ (uid, msg) # rest) sb =
           (Inl e, st2\<lparr>mailbox := with_flags [uid] True True (mailbox st1),
                       logged := logged st1 @ [Log_info_process_messages msg uid],
                       calls := calls st1 @ [Add_flags [Uid uid] [Flag_Flagged, Flag_Seen]]\<rparr>)"
    using assms(4,7)
    by (simp add: messages_loop_append loop_body_def t dispatch_and_finish_def
        callbacks_loop_frame)
  show ?thesis
    using assms(2,3) l by (simp add: process_messages_def)
qed

theorem callback_failure_aborts_cycle_witness:
  "client \<lparr>client = imap_client rejecting, timeout = None\<rparr> = imap_client rejecting
   \<and> reset_timeout_messages \<lparr>client = imap_client rejecting, timeout = None\<rparr> 100
        (world_of [(1, new_mail 0 ''hello''), (2, new_mail 5 ''world'')])
      = (Inr (), world_of [(1, new_mail 0 ''hello''), (2, new_mail 5 ''world'')])
   \<and> get_messages \<lparr>client = imap_client rejecting, timeout = None\<rparr>
        (world_of [(1, new_mail 0 ''hello''), (2, new_mail 5 ''world'')])
      = (Inr (Some ([] @ (1, [(RFC822, Text ''hello'')]) # [(2, [(RFC822, Text ''world'')])])),
         (world_of [(1, new_mail 0 ''hello''), (2, new_mail 5 ''world'')])
           \<lparr>calls := [Search [Unseen, Unflagged], Fetch (Some [1, 2]) [RFC822]]\<rparr>)
   \<and> messages_loop \<lparr>client = imap_client rejecting, timeout = None\<rparr> [(cb_choking, ())] parse_ex []
        ((world_of [(1, new_mail 0 ''hello''), (2, new_mail 5 ''world'')])
           \<lparr>calls := [Search [Unseen, Unflagged], Fetch (Some [1, 2]) [RFC822]]\<rparr>)
      = (Inr (), (world_of [(1, new_mail 0 ''hello''), (2, new_mail 5 ''world'')])
           \<lparr>calls := [Search [Unseen, Unflagged], Fetch (Some [1, 2]) [RFC822]]\<rparr>)
   \<and> getitem [(RFC822, Text ''hello'')] RFC822 = Inr (Text ''hello'')
   \<and> parse_ex ''hello'' = Inr ''hello''
   \<and> callbacks_loop (Some ''hello'') [(cb_choking, ())]
        ((world_of [(1, new_mail 0 ''hello''), (2, new_mail 5 ''world'')])
           \<lparr>calls := [Search [Unseen, Unflagged], Fetch (Some [1, 2]) [RFC822]]\<rparr>)
      = (Inl (CallbackError ''boom''),
         (world_of [(1, new_mail 0 ''hello''), (2, new_mail 5 ''world'')])
           \<lparr>calls := [Search [Unseen, Unflagged], Fetch (Some [1, 2]) [RFC822]],
            events := [Check_rules ''choking'' (Some ''hello'')]\<rparr>)
   \<and> process_messages \<lparr>client = imap_client rejecting, timeout = None\<rparr> [(cb_choking, ())]
        parse_ex 100 (world_of [(1, new_mail 0 ''hello''), (2, new_mail 5 ''world'')])
      = (Inl (CallbackError ''boom''),
         \<lparr>mailbox = [(1, processing_mail 0 ''hello''), (2, new_mail 5 ''world'')],
          logged = [Log_info_process_messages [(RFC822, Text ''hello'')] 1],
          calls = [Search [Unseen, Unflagged], Fetch (Some [1, 2]) [RFC822],
                   Add_flags [Uid 1] [Flag_Flagged, Flag_Seen]],
          events = [Check_rules ''choking'' (Some ''hello'')]\<rparr>)"
proof -
  let ?bot = "\<lparr>client = imap_client rejecting, timeout = None\<rparr>"
  let ?st = "world_of [(1, new_mail 0 ''hello''), (2, new_mail 5 ''world'')]"
  let ?sb = "?st\<lparr>calls := [Search [Unseen, Unflagged], Fetch (Some [1, 2]) [RFC822]]\<rparr>"
  have h1: "client ?bot = imap_client rejecting"
    by simp
  have h2: "reset_timeout_messages ?bot 100 ?st = (Inr (), ?st)"
    by (simp add: reset_timeout_messages_def)
  have h3: "get_messages ?bot ?st
      = (Inr (Some ([] @ (1, [(RFC822, Text ''hello'')]) # [(2, [(RFC822, Text ''world'')])])), ?sb)"
    by code_simp
  have h4: "messages_loop ?bot [(cb_choking, ())] parse_ex [] ?sb = (Inr (), ?sb)"
    by simp
  have h5: "getitem [(RFC822, Text ''hello'')] RFC822 = Inr (Text ''hello'')"
    by (simp add: getitem_def)
  have h6: "parse_ex ''hello'' = Inr ''hello''"
    by (simp add: parse_ex_def)
  have h7: "callbacks_loop (Some ''hello'') [(cb_choking, ())] ?sb
      = (Inl (CallbackError ''boom''),
         ?st\<lparr>calls := [Search [Unseen, Unflagged], Fetch (Some [1, 2]) [RFC822]],
             events := [Check_rules ''choking'' (Some ''hello'')]\<rparr>)"
    by (simp add: process_message_def cb_choking_def world_of_def)
  note t = callback_failure_aborts_cycle [OF h1 h2 h3 h4 h5 h6 h7]
  have w: "with_flags [1] True True (mailbox ?sb)
      = [(1, processing_mail 0 ''hello''), (2, new_mail 5 ''world'')]"
    by code_simp
  have r: "process_messages ?bot [(cb_choking, ())] parse_ex 100 ?st
      = (Inl (CallbackError ''boom''),
         \<lparr>mailbox = [(1, processing_mail 0 ''hello''), (2, new_mail 5 ''world'')],
          logged = [Log_info_process_messages [(RFC822, Text ''hello'')] 1],
          calls = [Search [Unseen, Unflagged], Fetch (Some [1, 2]) [RFC822],
                   Add_flags [Uid 1] [Flag_Flagged, Flag_Seen]],
          events = [Check_rules ''choking'' (Some ''hello'')]\<rparr>)"
    unfolding t w by (simp add: world_of_def)
  show ?thesis
    using h1 h2 h3 h4 h5 h6 h7 r by blast
qed

end
